theory Spec2Isabelle
  imports Complex_Main
begin

section \<open>Data model\<close>

text \<open>
  The module \<^verbatim>\<open>Source/Core/arrayRemoveDuplicates.js\<close> exports one function,
  \<^verbatim>\<open>arrayRemoveDuplicates(values, objectType, wrapAround)\<close>. Its arguments are a
  JavaScript array, an object that supplies \<^verbatim>\<open>equalsEpsilon(left, right, epsilon)\<close> and
  \<^verbatim>\<open>clone(value)\<close>, and an optional boolean. An argument that is \<^verbatim>\<open>undefined\<close> or
  \<^verbatim>\<open>null\<close> is \<open>None\<close>.
\<close>

datatype error = DeveloperError string

record 'a objectType =
  equalsEpsilon :: "'a \<Rightarrow> 'a \<Rightarrow> real \<Rightarrow> bool"
  clone :: "'a \<Rightarrow> 'a"

text \<open>
  The function returns either the array it was given (\<^verbatim>\<open>return values\<close>) or an array it
  built itself (\<^verbatim>\<open>values.slice(..)\<close>, \<^verbatim>\<open>cleanedvalues\<close>). The two are kept apart.
\<close>

datatype 'a returned = Original "'a list" | Allocated "'a list"

fun elems :: "'a returned \<Rightarrow> 'a list" where
  "elems (Original xs) = xs"
| "elems (Allocated xs) = xs"

fun isAllocated :: "'a returned \<Rightarrow> bool" where
  "isAllocated (Original xs) = False"
| "isAllocated (Allocated xs) = True"

text \<open>
  Modelled from the spec: \<^verbatim>\<open>CesiumMath.EPSILON10\<close> of \<^verbatim>\<open>./Math\<close>, which is not among
  the source files; the spec gives the tolerance as 1e-10.
\<close>

definition EPSILON10 :: real where
  "EPSILON10 = 1 / 10000000000"

definition removeDuplicatesEpsilon :: real where
  "removeDuplicatesEpsilon = EPSILON10"

text \<open>
  Modelled from the spec: \<^verbatim>\<open>defined\<close> and \<^verbatim>\<open>defaultValue\<close> of \<^verbatim>\<open>./defined\<close> and
  \<^verbatim>\<open>./defaultValue\<close>, which are not among the source files: an argument is defined unless
  it is missing, and a missing optional argument takes its default.
\<close>

definition defined :: "'a option \<Rightarrow> bool" where
  "defined a = (case a of None \<Rightarrow> False | Some _ \<Rightarrow> True)"

definition defaultValue :: "'a option \<Rightarrow> 'a \<Rightarrow> 'a" where
  "defaultValue a b = (case a of None \<Rightarrow> b | Some v \<Rightarrow> v)"

section \<open>The function\<close>

text \<open>
  First loop (lines 56 to 62): from index \<open>i\<close> on, stop at the first index whose element
  compares equal to its predecessor; \<open>length values\<close> when there is none.
\<close>

function firstLoop :: "'a list \<Rightarrow> 'a objectType \<Rightarrow> nat \<Rightarrow> nat" where
  "firstLoop values objectType i =
     (if i < length values then
        (if equalsEpsilon objectType (values ! (i - 1)) (values ! i) removeDuplicatesEpsilon
         then i
         else firstLoop values objectType (Suc i))
      else i)"
  by pat_completeness auto
termination
  by (relation "measure (\<lambda>(values, objectType, i). length values - i)") auto

declare firstLoop.simps [simp del]

text \<open>
  Second loop (lines 72 to 79): \<open>v0\<close> is the last value kept. A value that does not compare
  equal to \<open>v0\<close> is cloned and pushed, and becomes \<open>v0\<close> (the value itself, not its clone).
\<close>

function secondLoop :: "'a list \<Rightarrow> 'a objectType \<Rightarrow> nat \<Rightarrow> 'a \<Rightarrow> 'a list \<Rightarrow> 'a list" where
  "secondLoop values objectType i v0 cleanedvalues =
     (if i < length values then
        (let v1 = values ! i in
         if \<not> equalsEpsilon objectType v0 v1 removeDuplicatesEpsilon
         then secondLoop values objectType (Suc i) v1 (cleanedvalues @ [clone objectType v1])
         else secondLoop values objectType (Suc i) v0 cleanedvalues)
      else cleanedvalues)"
  by pat_completeness auto
termination
  by (relation "measure (\<lambda>(values, objectType, i, v0, cleanedvalues). length values - i)") auto

declare secondLoop.simps [simp del]

text \<open>
  The body after the argument checks (lines 45 to 85). \<^verbatim>\<open>values.slice(1)\<close> is \<open>drop 1\<close>,
  \<^verbatim>\<open>values.slice(0, i)\<close> is \<open>take i\<close>, and \<^verbatim>\<open>cleanedvalues.shift()\<close>, reached only with more
  than one element, is \<open>tl\<close>. Every index read is in range: the array has at least two
  elements and \<open>1 \<le> i < length values\<close> where \<open>values ! (i - 1)\<close> is read.
\<close>

definition removeDuplicatesBody :: "'a list \<Rightarrow> 'a objectType \<Rightarrow> bool \<Rightarrow> 'a returned" where
  "removeDuplicatesBody values objectType wrapAround =
     (if length values < 2 then Original values
      else
        (let i = firstLoop values objectType 1 in
         if i = length values then
           (if wrapAround \<and>
               equalsEpsilon objectType (values ! 0) (values ! (length values - 1))
                 removeDuplicatesEpsilon
            then Allocated (drop 1 values)
            else Original values)
         else
           (let cleanedvalues =
                  secondLoop values objectType i (values ! (i - 1)) (take i values) in
            if wrapAround \<and> length cleanedvalues > 1 \<and>
               equalsEpsilon objectType (cleanedvalues ! 0)
                 (cleanedvalues ! (length cleanedvalues - 1)) removeDuplicatesEpsilon
            then Allocated (tl cleanedvalues)
            else Allocated cleanedvalues)))"

text \<open>
  The whole function (lines 35 to 86), with the two argument checks of the debug build in
  the order of the source.
\<close>

definition arrayRemoveDuplicates ::
  "'a list option \<Rightarrow> 'a objectType option \<Rightarrow> bool option \<Rightarrow> error + 'a returned" where
  "arrayRemoveDuplicates values objectType wrapAround =
     (if \<not> defined values then Inl (DeveloperError ''values is required.'')
      else if \<not> defined objectType then Inl (DeveloperError ''objectType is required.'')
      else Inr (removeDuplicatesBody (the values) (the objectType)
                  (defaultValue wrapAround False)))"

section \<open>Effects and failures\<close>

text \<open>
  The same function with what a caller can observe besides the result: the calls of
  \<^verbatim>\<open>objectType.equalsEpsilon\<close> and \<^verbatim>\<open>objectType.clone\<close> and the arrays made by
  \<^verbatim>\<open>values.slice\<close>, in order, and every way the call can end in an exception. In
  JavaScript \<open>objectType\<close> is any object: a property it does not have is not a function,
  and calling it is a \<^verbatim>\<open>TypeError\<close> of the runtime; an operation it has may itself throw.
  \<open>ByFunction\<close> is an exception of a \<^verbatim>\<open>throw\<close> statement of the function, \<open>NotAFunction\<close>
  the \<^verbatim>\<open>TypeError\<close> of calling the named property, \<open>ByOperation\<close> what an operation threw.
\<close>

datatype 'a event = Compared 'a 'a real | Cloned 'a | NewArray

datatype 'e thrown = ByFunction error | NotAFunction string | ByOperation 'e

record ('a, 'e) jsObjectType =
  equalsEpsilonProperty :: "('a \<Rightarrow> 'a \<Rightarrow> real \<Rightarrow> 'e + bool) option"
  cloneProperty :: "('a \<Rightarrow> 'e + 'a) option"

definition callEqualsEpsilon ::
  "('a, 'e) jsObjectType \<Rightarrow> 'a \<Rightarrow> 'a \<Rightarrow> 'a event list \<Rightarrow> 'a event list \<times> ('e thrown + bool)" where
  "callEqualsEpsilon objectType left right trace =
     (case equalsEpsilonProperty objectType of
        None \<Rightarrow> (trace, Inl (NotAFunction ''equalsEpsilon''))
      | Some f \<Rightarrow>
          (trace @ [Compared left right removeDuplicatesEpsilon],
           case f left right removeDuplicatesEpsilon of
             Inl e \<Rightarrow> Inl (ByOperation e)
           | Inr b \<Rightarrow> Inr b))"

definition callClone ::
  "('a, 'e) jsObjectType \<Rightarrow> 'a \<Rightarrow> 'a event list \<Rightarrow> 'a event list \<times> ('e thrown + 'a)" where
  "callClone objectType v trace =
     (case cloneProperty objectType of
        None \<Rightarrow> (trace, Inl (NotAFunction ''clone''))
      | Some g \<Rightarrow>
          (trace @ [Cloned v],
           case g v of
             Inl e \<Rightarrow> Inl (ByOperation e)
           | Inr c \<Rightarrow> Inr c))"

function firstLoopTraced ::
  "'a list \<Rightarrow> ('a, 'e) jsObjectType \<Rightarrow> nat \<Rightarrow> 'a event list \<Rightarrow> 'a event list \<times> ('e thrown + nat)" where
  "firstLoopTraced values objectType i trace =
     (if i < length values then
        (case callEqualsEpsilon objectType (values ! (i - 1)) (values ! i) trace of
           (trace', Inl e) \<Rightarrow> (trace', Inl e)
         | (trace', Inr b) \<Rightarrow>
             if b then (trace', Inr i)
             else firstLoopTraced values objectType (Suc i) trace')
      else (trace, Inr i))"
  by pat_completeness auto
termination
  by (relation "measure (\<lambda>(values, objectType, i, trace). length values - i)") auto

declare firstLoopTraced.simps [simp del]

function secondLoopTraced ::
  "'a list \<Rightarrow> ('a, 'e) jsObjectType \<Rightarrow> nat \<Rightarrow> 'a \<Rightarrow> 'a list \<Rightarrow> 'a event list \<Rightarrow>
     'a event list \<times> ('e thrown + 'a list)" where
  "secondLoopTraced values objectType i v0 cleanedvalues trace =
     (if i < length values then
        (let v1 = values ! i in
         case callEqualsEpsilon objectType v0 v1 trace of
           (trace', Inl e) \<Rightarrow> (trace', Inl e)
         | (trace', Inr b) \<Rightarrow>
             if \<not> b then
               (case callClone objectType v1 trace' of
                  (trace'', Inl e) \<Rightarrow> (trace'', Inl e)
                | (trace'', Inr c) \<Rightarrow>
                    secondLoopTraced values objectType (Suc i) v1 (cleanedvalues @ [c]) trace'')
             else secondLoopTraced values objectType (Suc i) v0 cleanedvalues trace')
      else (trace, Inr cleanedvalues))"
  by pat_completeness auto
termination
  by (relation "measure (\<lambda>(values, objectType, i, v0, cleanedvalues, trace). length values - i)")
    auto

declare secondLoopTraced.simps [simp del]

definition removeDuplicatesBodyTraced ::
  "'a list \<Rightarrow> ('a, 'e) jsObjectType \<Rightarrow> bool \<Rightarrow> 'a event list \<times> ('e thrown + 'a returned)" where
  "removeDuplicatesBodyTraced values objectType wrapAround =
     (if length values < 2 then ([], Inr (Original values))
      else
        (case firstLoopTraced values objectType 1 [] of
           (trace, Inl e) \<Rightarrow> (trace, Inl e)
         | (trace, Inr i) \<Rightarrow>
             if i = length values then
               (if wrapAround then
                  (case callEqualsEpsilon objectType (values ! 0) (values ! (length values - 1))
                          trace of
                     (trace', Inl e) \<Rightarrow> (trace', Inl e)
                   | (trace', Inr b) \<Rightarrow>
                       if b then (trace' @ [NewArray], Inr (Allocated (drop 1 values)))
                       else (trace', Inr (Original values)))
                else (trace, Inr (Original values)))
             else
               (case secondLoopTraced values objectType i (values ! (i - 1)) (take i values)
                       (trace @ [NewArray]) of
                  (trace', Inl e) \<Rightarrow> (trace', Inl e)
                | (trace', Inr cleanedvalues) \<Rightarrow>
                    if wrapAround \<and> length cleanedvalues > 1 then
                      (case callEqualsEpsilon objectType (cleanedvalues ! 0)
                              (cleanedvalues ! (length cleanedvalues - 1)) trace' of
                         (trace'', Inl e) \<Rightarrow> (trace'', Inl e)
                       | (trace'', Inr b) \<Rightarrow>
                           (trace'', Inr (Allocated (if b then tl cleanedvalues
                                                     else cleanedvalues))))
                    else (trace', Inr (Allocated cleanedvalues)))))"

definition arrayRemoveDuplicatesTraced ::
  "'a list option \<Rightarrow> ('a, 'e) jsObjectType option \<Rightarrow> bool option \<Rightarrow>
     'a event list \<times> ('e thrown + 'a returned)" where
  "arrayRemoveDuplicatesTraced values objectType wrapAround =
     (if \<not> defined values
      then ([], Inl (ByFunction (DeveloperError ''values is required.'')))
      else if \<not> defined objectType
      then ([], Inl (ByFunction (DeveloperError ''objectType is required.'')))
      else removeDuplicatesBodyTraced (the values) (the objectType)
             (defaultValue wrapAround False))"

section \<open>Value types\<close>

text \<open>
  Modelled from the spec: \<^verbatim>\<open>Cartesian3\<close>, the value type of the documented examples,
  is not among the source files. The spec describes its comparison as equality within a
  tolerance, taken here on each of the three components, and its \<^verbatim>\<open>clone\<close> as a copy
  with the same components.
\<close>

datatype Cartesian3 = Cartesian3 real real real

fun Cartesian3_equalsEpsilon :: "Cartesian3 \<Rightarrow> Cartesian3 \<Rightarrow> real \<Rightarrow> bool" where
  "Cartesian3_equalsEpsilon (Cartesian3 lx ly lz) (Cartesian3 rx ry rz) epsilon =
     (\<bar>lx - rx\<bar> \<le> epsilon \<and> \<bar>ly - ry\<bar> \<le> epsilon \<and> \<bar>lz - rz\<bar> \<le> epsilon)"

fun Cartesian3_clone :: "Cartesian3 \<Rightarrow> Cartesian3" where
  "Cartesian3_clone (Cartesian3 cx cy cz) = Cartesian3 cx cy cz"

definition Cartesian3Type :: "Cartesian3 objectType" where
  "Cartesian3Type = \<lparr> equalsEpsilon = Cartesian3_equalsEpsilon, clone = Cartesian3_clone \<rparr>"

text \<open>
  A value type whose comparison ignores the tolerance and is plain equality, used where
  a symmetric and transitive comparison is needed.
\<close>

definition exactType :: "int objectType" where
  "exactType = \<lparr> equalsEpsilon = (\<lambda>left right epsilon. left = right), clone = (\<lambda>v. v) \<rparr>"

text \<open>
  A value type of the first model as a JavaScript object: both operations are there and
  return.
\<close>

definition supplied :: "'a objectType \<Rightarrow> ('a, 'e) jsObjectType" where
  "supplied objectType =
     \<lparr> equalsEpsilonProperty =
         Some (\<lambda>left right epsilon. Inr (equalsEpsilon objectType left right epsilon)),
       cloneProperty = Some (\<lambda>v. Inr (clone objectType v)) \<rparr>"

section \<open>Vocabulary of the properties\<close>

text \<open>Some element compares equal (within the tolerance) to the element before it.\<close>

fun adjacentDuplicate :: "'a objectType \<Rightarrow> 'a list \<Rightarrow> bool" where
  "adjacentDuplicate objectType (a # b # rest) =
     (equalsEpsilon objectType a b removeDuplicatesEpsilon \<or> adjacentDuplicate objectType (b # rest))"
| "adjacentDuplicate objectType [a] = False"
| "adjacentDuplicate objectType [] = False"

text \<open>
  The values the second loop keeps from \<open>rest\<close> when the last value kept is \<open>v0\<close>, before
  cloning: the loop of lines 72 to 79 as a recursion over the remaining elements
  (\<open>secondLoop_keepFrom\<close> relates the two).
\<close>

fun keepFrom :: "'a objectType \<Rightarrow> 'a \<Rightarrow> 'a list \<Rightarrow> 'a list" where
  "keepFrom objectType v0 [] = []"
| "keepFrom objectType v0 (v1 # rest) =
     (if equalsEpsilon objectType v0 v1 removeDuplicatesEpsilon
      then keepFrom objectType v0 rest
      else v1 # keepFrom objectType v1 rest)"

text \<open>The array \<^verbatim>\<open>cleanedvalues\<close> after the second loop (line 79), before the wrap-around step.\<close>

definition cleanedvalues :: "'a list \<Rightarrow> 'a objectType \<Rightarrow> 'a list" where
  "cleanedvalues vs ot =
     secondLoop vs ot (firstLoop vs ot 1) (vs ! (firstLoop vs ot 1 - 1)) (take (firstLoop vs ot 1) vs)"

text \<open>
  Assumptions on the value type. \<open>clone\<close> yields a copy that compares as its original does;
  a copy is the same value; the comparison is symmetric; the comparison is transitive.
\<close>

definition cloneRespectsEquals :: "'a objectType \<Rightarrow> bool" where
  "cloneRespectsEquals objectType =
     (\<forall>a b. equalsEpsilon objectType (clone objectType a) b removeDuplicatesEpsilon =
              equalsEpsilon objectType a b removeDuplicatesEpsilon \<and>
            equalsEpsilon objectType a (clone objectType b) removeDuplicatesEpsilon =
              equalsEpsilon objectType a b removeDuplicatesEpsilon)"

definition cloneIsCopy :: "'a objectType \<Rightarrow> bool" where
  "cloneIsCopy objectType = (\<forall>v. clone objectType v = v)"

definition equalsEpsilonSymmetric :: "'a objectType \<Rightarrow> bool" where
  "equalsEpsilonSymmetric objectType =
     (\<forall>a b. equalsEpsilon objectType a b removeDuplicatesEpsilon \<longrightarrow>
            equalsEpsilon objectType b a removeDuplicatesEpsilon)"

definition equalsEpsilonTransitive :: "'a objectType \<Rightarrow> bool" where
  "equalsEpsilonTransitive objectType =
     (\<forall>a b c. equalsEpsilon objectType a b removeDuplicatesEpsilon \<longrightarrow>
              equalsEpsilon objectType b c removeDuplicatesEpsilon \<longrightarrow>
              equalsEpsilon objectType a c removeDuplicatesEpsilon)"


section \<open>The loops\<close>

lemma adjacentDuplicate_index:
  "adjacentDuplicate ot xs \<longleftrightarrow>
     (\<exists>j. Suc j < length xs \<and> equalsEpsilon ot (xs ! j) (xs ! Suc j) removeDuplicatesEpsilon)"
proof (induction ot xs rule: adjacentDuplicate.induct)
  case (1 ot a b rest)
  show ?case
  proof
    assume "adjacentDuplicate ot (a # b # rest)"
    then consider "equalsEpsilon ot a b removeDuplicatesEpsilon" | "adjacentDuplicate ot (b # rest)"
      by auto
    then show "\<exists>j. Suc j < length (a # b # rest) \<and>
        equalsEpsilon ot ((a # b # rest) ! j) ((a # b # rest) ! Suc j) removeDuplicatesEpsilon"
    proof cases
      case 1
      then show ?thesis by (intro exI[of _ 0]) simp
    next
      case 2
      with "1.IH" obtain j where "Suc j < length (b # rest)"
        "equalsEpsilon ot ((b # rest) ! j) ((b # rest) ! Suc j) removeDuplicatesEpsilon"
        by auto
      then show ?thesis by (intro exI[of _ "Suc j"]) simp
    qed
  next
    assume "\<exists>j. Suc j < length (a # b # rest) \<and>
        equalsEpsilon ot ((a # b # rest) ! j) ((a # b # rest) ! Suc j) removeDuplicatesEpsilon"
    then obtain j where j: "Suc j < length (a # b # rest)"
        "equalsEpsilon ot ((a # b # rest) ! j) ((a # b # rest) ! Suc j) removeDuplicatesEpsilon"
      by auto
    show "adjacentDuplicate ot (a # b # rest)"
    proof (cases j)
      case 0
      with j show ?thesis by simp
    next
      case (Suc k)
      with j have "Suc k < length (b # rest) \<and>
          equalsEpsilon ot ((b # rest) ! k) ((b # rest) ! Suc k) removeDuplicatesEpsilon"
        by simp
      with "1.IH" show ?thesis by auto
    qed
  qed
qed simp_all

lemma adjacentDuplicate_append:
  "xs \<noteq> [] \<Longrightarrow>
     adjacentDuplicate ot (xs @ ys) \<longleftrightarrow> adjacentDuplicate ot xs \<or> adjacentDuplicate ot (last xs # ys)"
  by (induction ot xs rule: adjacentDuplicate.induct) auto

lemma adjacentDuplicate_tl: "adjacentDuplicate ot (tl xs) \<Longrightarrow> adjacentDuplicate ot xs"
  by (induction ot xs rule: adjacentDuplicate.induct) auto

lemma adjacentDuplicate_take: "adjacentDuplicate ot (take n xs) \<Longrightarrow> adjacentDuplicate ot xs"
  unfolding adjacentDuplicate_index by (auto simp: nth_take) 

lemma secondLoop_keepFrom:
  "i \<le> length vs \<Longrightarrow>
     secondLoop vs ot i v0 cl = cl @ map (clone ot) (keepFrom ot v0 (drop i vs))"
proof (induction vs ot i v0 cl rule: secondLoop.induct)
  case (1 vs ot i v0 cl)
  show ?case
  proof (cases "i < length vs")
    case True
    then have d: "drop i vs = vs ! i # drop (Suc i) vs"
      by (simp add: Cons_nth_drop_Suc)
    from True have le: "Suc i \<le> length vs" by simp
    show ?thesis
    proof (cases "equalsEpsilon ot v0 (vs ! i) removeDuplicatesEpsilon")
      case eq: True
      from "1.IH"(2)[OF True refl _ le] eq
      have "secondLoop vs ot (Suc i) v0 cl = cl @ map (clone ot) (keepFrom ot v0 (drop (Suc i) vs))"
        by simp
      with True eq d show ?thesis
        by (subst secondLoop.simps) (simp add: Let_def)
    next
      case ne: False
      from "1.IH"(1)[OF True refl _ le] ne
      have "secondLoop vs ot (Suc i) (vs ! i) (cl @ [clone ot (vs ! i)]) =
              (cl @ [clone ot (vs ! i)]) @ map (clone ot) (keepFrom ot (vs ! i) (drop (Suc i) vs))"
        by simp
      with True ne d show ?thesis
        by (subst secondLoop.simps) (simp add: Let_def)
    qed
  next
    case False
    with "1.prems" show ?thesis
      by (subst secondLoop.simps) (simp add: Let_def)
  qed
qed

lemma firstLoop_range:
  "i \<le> length vs \<Longrightarrow> i \<le> firstLoop vs ot i \<and> firstLoop vs ot i \<le> length vs"
proof (induction vs ot i rule: firstLoop.induct)
  case (1 vs ot i)
  show ?case
  proof (cases "i < length vs \<and> \<not> equalsEpsilon ot (vs ! (i - 1)) (vs ! i) removeDuplicatesEpsilon")
    case True
    with "1.IH" have "Suc i \<le> firstLoop vs ot (Suc i) \<and> firstLoop vs ot (Suc i) \<le> length vs"
      by simp
    with True show ?thesis by (subst (1 2) firstLoop.simps) simp
  next
    case False
    with "1.prems" show ?thesis by (subst (1 2) firstLoop.simps) auto
  qed
qed

lemma firstLoop_stops:
  "firstLoop vs ot i < length vs \<Longrightarrow>
     equalsEpsilon ot (vs ! (firstLoop vs ot i - 1)) (vs ! firstLoop vs ot i) removeDuplicatesEpsilon"
proof (induction vs ot i rule: firstLoop.induct)
  case (1 vs ot i)
  show ?case
  proof (cases "i < length vs")
    case True
    show ?thesis
    proof (cases "equalsEpsilon ot (vs ! (i - 1)) (vs ! i) removeDuplicatesEpsilon")
      case eq: True
      with True have "firstLoop vs ot i = i" by (subst firstLoop.simps) simp
      with eq show ?thesis by simp
    next
      case ne: False
      with True have s: "firstLoop vs ot i = firstLoop vs ot (Suc i)"
        by (subst firstLoop.simps) simp
      with "1.IH"[OF True ne] "1.prems" show ?thesis by simp
    qed
  next
    case False
    then have "firstLoop vs ot i = i" by (subst firstLoop.simps) simp
    with False "1.prems" show ?thesis by simp
  qed
qed

lemma firstLoop_skipped:
  "i \<le> j \<Longrightarrow> j < firstLoop vs ot i \<Longrightarrow> j < length vs \<Longrightarrow>
     \<not> equalsEpsilon ot (vs ! (j - 1)) (vs ! j) removeDuplicatesEpsilon"
proof (induction vs ot i rule: firstLoop.induct)
  case (1 vs ot i)
  show ?case
  proof (cases "i < length vs \<and> \<not> equalsEpsilon ot (vs ! (i - 1)) (vs ! i) removeDuplicatesEpsilon")
    case True
    then have s: "firstLoop vs ot i = firstLoop vs ot (Suc i)"
      by (subst firstLoop.simps) simp
    show ?thesis
    proof (cases "j = i")
      case True
      with \<open>i < length vs \<and> \<not> equalsEpsilon ot (vs ! (i - 1)) (vs ! i) removeDuplicatesEpsilon\<close>
      show ?thesis by simp
    next
      case False
      with "1.prems" have "Suc i \<le> j" by simp
      with "1.IH" True "1.prems" s show ?thesis by simp
    qed
  next
    case False
    then have "firstLoop vs ot i = i" by (subst firstLoop.simps) auto
    with "1.prems" show ?thesis by simp
  qed
qed

lemma firstLoop_prefix_clean:
  "\<not> adjacentDuplicate ot (take (firstLoop vs ot 1) vs)"
proof
  assume "adjacentDuplicate ot (take (firstLoop vs ot 1) vs)"
  then obtain j where j: "Suc j < length (take (firstLoop vs ot 1) vs)"
    "equalsEpsilon ot (take (firstLoop vs ot 1) vs ! j) (take (firstLoop vs ot 1) vs ! Suc j)
       removeDuplicatesEpsilon"
    unfolding adjacentDuplicate_index by blast
  then have "Suc j < firstLoop vs ot 1" "Suc j < length vs" by simp_all
  with firstLoop_skipped[of 1 "Suc j" vs ot]
  have "\<not> equalsEpsilon ot (vs ! j) (vs ! Suc j) removeDuplicatesEpsilon" by simp
  with j show False by simp
qed

lemma firstLoop_end_iff:
  "1 \<le> length vs \<Longrightarrow> firstLoop vs ot 1 = length vs \<longleftrightarrow> \<not> adjacentDuplicate ot vs"
proof
  assume "firstLoop vs ot 1 = length vs"
  with firstLoop_prefix_clean[of ot vs] show "\<not> adjacentDuplicate ot vs" by simp
next
  assume len: "1 \<le> length vs" and clean: "\<not> adjacentDuplicate ot vs"
  show "firstLoop vs ot 1 = length vs"
  proof (rule ccontr)
    assume "firstLoop vs ot 1 \<noteq> length vs"
    with firstLoop_range[of 1 vs ot] len
    have lt: "firstLoop vs ot 1 < length vs" and ge: "1 \<le> firstLoop vs ot 1" by simp_all
    from firstLoop_stops[OF lt] ge lt have "adjacentDuplicate ot vs"
      unfolding adjacentDuplicate_index
      by (intro exI[of _ "firstLoop vs ot 1 - 1"]) simp
    with clean show False by simp
  qed
qed

section \<open>The branches of the function\<close>

lemma arrayRemoveDuplicates_Some:
  "arrayRemoveDuplicates (Some vs) (Some ot) w = Inr (removeDuplicatesBody vs ot (defaultValue w False))"
  by (simp add: arrayRemoveDuplicates_def defined_def)

lemma adjacentDuplicate_length: "adjacentDuplicate ot vs \<Longrightarrow> 2 \<le> length vs"
  by (induction ot vs rule: adjacentDuplicate.induct) simp_all

lemma body_short: "length vs < 2 \<Longrightarrow> removeDuplicatesBody vs ot w = Original vs"
  by (simp add: removeDuplicatesBody_def)

lemma body_clean:
  assumes "2 \<le> length vs" "\<not> adjacentDuplicate ot vs"
  shows "removeDuplicatesBody vs ot w =
     (if w \<and> equalsEpsilon ot (vs ! 0) (vs ! (length vs - 1)) removeDuplicatesEpsilon
      then Allocated (drop 1 vs) else Original vs)"
proof -
  from assms have "firstLoop vs ot 1 = length vs"
    using firstLoop_end_iff[of vs ot] by simp
  with assms(1) show ?thesis
    by (simp add: removeDuplicatesBody_def)
qed

lemma body_dup:
  assumes "adjacentDuplicate ot vs"
  shows "removeDuplicatesBody vs ot w =
     (if w \<and> 1 < length (cleanedvalues vs ot) \<and>
         equalsEpsilon ot (cleanedvalues vs ot ! 0) (cleanedvalues vs ot ! (length (cleanedvalues vs ot) - 1))
           removeDuplicatesEpsilon
      then Allocated (tl (cleanedvalues vs ot)) else Allocated (cleanedvalues vs ot))"
proof -
  from assms have len: "2 \<le> length vs" by (rule adjacentDuplicate_length)
  with assms have "firstLoop vs ot 1 \<noteq> length vs"
    using firstLoop_end_iff[of vs ot] by simp
  with len show ?thesis
    by (simp add: removeDuplicatesBody_def cleanedvalues_def Let_def)
qed

lemma firstLoop_dup:
  assumes "adjacentDuplicate ot vs"
  shows "1 \<le> firstLoop vs ot 1" "firstLoop vs ot 1 < length vs"
    "equalsEpsilon ot (vs ! (firstLoop vs ot 1 - 1)) (vs ! firstLoop vs ot 1) removeDuplicatesEpsilon"
proof -
  from assms have len: "2 \<le> length vs" by (rule adjacentDuplicate_length)
  with assms have "firstLoop vs ot 1 \<noteq> length vs"
    using firstLoop_end_iff[of vs ot] by simp
  with firstLoop_range[of 1 vs ot] len
  show "1 \<le> firstLoop vs ot 1" and lt: "firstLoop vs ot 1 < length vs" by simp_all
  from firstLoop_stops[OF lt]
  show "equalsEpsilon ot (vs ! (firstLoop vs ot 1 - 1)) (vs ! firstLoop vs ot 1) removeDuplicatesEpsilon" .
qed

lemma cleanedvalues_keepFrom:
  assumes "adjacentDuplicate ot vs"
  shows "cleanedvalues vs ot = take (firstLoop vs ot 1) vs @
           map (clone ot) (keepFrom ot (vs ! (firstLoop vs ot 1 - 1)) (drop (Suc (firstLoop vs ot 1)) vs))"
proof -
  let ?i = "firstLoop vs ot 1"
  note f = firstLoop_dup[OF assms]
  from f(2) have d: "drop ?i vs = vs ! ?i # drop (Suc ?i) vs"
    by (simp add: Cons_nth_drop_Suc)
  from f(2) have "cleanedvalues vs ot = take ?i vs @ map (clone ot) (keepFrom ot (vs ! (?i - 1)) (drop ?i vs))"
    unfolding cleanedvalues_def by (intro secondLoop_keepFrom) simp
  with d f(3) show ?thesis by simp
qed

lemma length_keepFrom: "length (keepFrom ot v0 xs) \<le> length xs"
  by (induction xs arbitrary: v0) (auto simp: le_SucI)

lemma cleanedvalues_length:
  assumes "adjacentDuplicate ot vs"
  shows "1 \<le> length (cleanedvalues vs ot)" "length (cleanedvalues vs ot) < length vs"
proof -
  let ?i = "firstLoop vs ot 1"
  note f = firstLoop_dup[OF assms]
  note c = cleanedvalues_keepFrom[OF assms]
  from c f show "1 \<le> length (cleanedvalues vs ot)" by simp
  have "length (keepFrom ot (vs ! (?i - 1)) (drop (Suc ?i) vs)) \<le> length vs - Suc ?i"
    using length_keepFrom[of ot "vs ! (?i - 1)" "drop (Suc ?i) vs"] by simp
  with c f show "length (cleanedvalues vs ot) < length vs" by simp
qed

lemma body_wrap_step:
  "elems (removeDuplicatesBody vs ot True) =
     (let d = elems (removeDuplicatesBody vs ot False) in
      if 1 < length d \<and> equalsEpsilon ot (d ! 0) (d ! (length d - 1)) removeDuplicatesEpsilon
      then tl d else d)"
proof (cases "length vs < 2")
  case True
  then show ?thesis by (simp add: body_short)
next
  case False
  then have len: "2 \<le> length vs" by simp
  show ?thesis
  proof (cases "adjacentDuplicate ot vs")
    case True
    then show ?thesis by (simp add: body_dup Let_def)
  next
    case False
    with len show ?thesis by (simp add: body_clean drop_Suc)
  qed
qed

section \<open>Consequences for the output\<close>

lemma last_take_nth: "0 < n \<Longrightarrow> n \<le> length xs \<Longrightarrow> last (take n xs) = xs ! (n - 1)"
  by (cases n) (simp_all add: take_Suc_conv_app_nth)

lemma adjacentDuplicate_clone_head:
  "cloneRespectsEquals ot \<Longrightarrow>
     adjacentDuplicate ot (clone ot a # ys) = adjacentDuplicate ot (a # ys)"
  by (cases ys) (simp_all add: cloneRespectsEquals_def)

lemma keepFrom_clean:
  assumes "cloneRespectsEquals ot"
  shows "\<not> adjacentDuplicate ot (v0 # map (clone ot) (keepFrom ot v0 xs))"
proof (induction xs arbitrary: v0)
  case Nil
  show ?case by simp
next
  case (Cons x xs)
  show ?case
  proof (cases "equalsEpsilon ot v0 x removeDuplicatesEpsilon")
    case True
    with Cons.IH[of v0] show ?thesis by simp
  next
    case False
    from assms have "\<not> equalsEpsilon ot v0 (clone ot x) removeDuplicatesEpsilon"
      using False by (simp add: cloneRespectsEquals_def)
    moreover have "\<not> adjacentDuplicate ot (clone ot x # map (clone ot) (keepFrom ot x xs))"
      using Cons.IH[of x] by (simp add: adjacentDuplicate_clone_head[OF assms])
    ultimately show ?thesis using False by simp
  qed
qed

lemma cleanedvalues_clean:
  assumes "cloneRespectsEquals ot" "adjacentDuplicate ot vs"
  shows "\<not> adjacentDuplicate ot (cleanedvalues vs ot)"
proof -
  let ?i = "firstLoop vs ot 1"
  note f = firstLoop_dup[OF assms(2)]
  from f have ne: "take ?i vs \<noteq> []" by auto
  from f have l: "last (take ?i vs) = vs ! (?i - 1)"
    by (intro last_take_nth) simp_all
  show ?thesis
    unfolding cleanedvalues_keepFrom[OF assms(2)] adjacentDuplicate_append[OF ne] l
    using firstLoop_prefix_clean[of ot vs] keepFrom_clean[OF assms(1)] by blast
qed

lemma output_clean:
  assumes "cloneRespectsEquals ot"
  shows "\<not> adjacentDuplicate ot (elems (removeDuplicatesBody vs ot w))"
proof (cases "adjacentDuplicate ot vs")
  case True
  from cleanedvalues_clean[OF assms True] adjacentDuplicate_tl[of ot "cleanedvalues vs ot"]
  show ?thesis by (auto simp add: body_dup[OF True])
next
  case False
  show ?thesis
  proof (cases "length vs < 2")
    case True
    with False show ?thesis by (simp add: body_short)
  next
    case long: False
    from False adjacentDuplicate_tl[of ot vs] have "\<not> adjacentDuplicate ot (drop 1 vs)"
      by (auto simp add: drop_Suc)
    with False long show ?thesis by (simp add: body_clean)
  qed
qed

lemma wrap_kept_first_last:
  assumes "removeDuplicatesBody vs ot False = removeDuplicatesBody vs ot True"
    and "2 \<le> length (elems (removeDuplicatesBody vs ot True))"
  shows "\<not> equalsEpsilon ot (elems (removeDuplicatesBody vs ot True) ! 0)
           (elems (removeDuplicatesBody vs ot True) !
              (length (elems (removeDuplicatesBody vs ot True)) - 1)) removeDuplicatesEpsilon"
proof
  let ?t = "elems (removeDuplicatesBody vs ot True)"
  assume eq: "equalsEpsilon ot (?t ! 0) (?t ! (length ?t - 1)) removeDuplicatesEpsilon"
  from body_wrap_step[of vs ot] assms eq have "?t = tl ?t"
    by (simp add: Let_def)
  then have "length ?t = length ?t - 1" by (metis length_tl)
  with assms(2) show False by simp
qed

lemma wrap_removed_first_last:
  assumes "cloneRespectsEquals ot" "equalsEpsilonSymmetric ot" "equalsEpsilonTransitive ot"
    and "2 \<le> length (elems (removeDuplicatesBody vs ot True))"
  shows "\<not> equalsEpsilon ot (elems (removeDuplicatesBody vs ot True) ! 0)
           (elems (removeDuplicatesBody vs ot True) !
              (length (elems (removeDuplicatesBody vs ot True)) - 1)) removeDuplicatesEpsilon"
proof
  let ?t = "elems (removeDuplicatesBody vs ot True)"
  let ?d = "elems (removeDuplicatesBody vs ot False)"
  assume eq: "equalsEpsilon ot (?t ! 0) (?t ! (length ?t - 1)) removeDuplicatesEpsilon"
  have step: "?t = (if 1 < length ?d \<and>
        equalsEpsilon ot (?d ! 0) (?d ! (length ?d - 1)) removeDuplicatesEpsilon then tl ?d else ?d)"
    using body_wrap_step[of vs ot] by (simp add: Let_def)
  have dclean: "\<not> adjacentDuplicate ot ?d" by (rule output_clean[OF assms(1)])
  show False
  proof (cases "1 < length ?d \<and>
        equalsEpsilon ot (?d ! 0) (?d ! (length ?d - 1)) removeDuplicatesEpsilon")
    case False
    from step have "?t = ?d" by (simp only: if_not_P[OF False])
    with False eq assms(4) show False by simp
  next
    case True
    from step have t: "?t = tl ?d" by (simp only: if_P[OF True])
    with assms(4) obtain x0 x1 rest where d: "?d = x0 # x1 # rest"
      by (cases ?d; cases "tl ?d") auto
    from dclean d have ne: "\<not> equalsEpsilon ot x0 x1 removeDuplicatesEpsilon" by simp
    from assms(4) t d have "rest \<noteq> []" by auto
    then have lastd: "?d ! (length ?d - 1) = last rest" "?t ! (length ?t - 1) = last rest"
      unfolding t d by (simp_all add: last_conv_nth)
    from True lastd d have a: "equalsEpsilon ot x0 (last rest) removeDuplicatesEpsilon" by simp
    from eq lastd t d have b: "equalsEpsilon ot x1 (last rest) removeDuplicatesEpsilon" by simp
    from b assms(2) have "equalsEpsilon ot (last rest) x1 removeDuplicatesEpsilon"
      unfolding equalsEpsilonSymmetric_def by blast
    with a assms(3) have "equalsEpsilon ot x0 x1 removeDuplicatesEpsilon"
      unfolding equalsEpsilonTransitive_def by blast
    with ne show False ..
  qed
qed

lemma Cartesian3_clone_same: "Cartesian3_clone c = c"
  by (cases c) simp

lemma Cartesian3Type_cloneRespectsEquals: "cloneRespectsEquals Cartesian3Type"
  by (simp add: cloneRespectsEquals_def Cartesian3Type_def Cartesian3_clone_same)

lemma exactType_assumptions:
  "cloneRespectsEquals exactType" "cloneIsCopy exactType"
  "equalsEpsilonSymmetric exactType" "equalsEpsilonTransitive exactType"
  by (simp_all add: cloneRespectsEquals_def cloneIsCopy_def equalsEpsilonSymmetric_def
      equalsEpsilonTransitive_def exactType_def)

lemmas evaluation =
  arrayRemoveDuplicates_def removeDuplicatesBody_def defined_def defaultValue_def
  firstLoop.simps secondLoop.simps Cartesian3Type_def exactType_def
  removeDuplicatesEpsilon_def EPSILON10_def Let_def

lemma Cartesian3Type_cloneIsCopy: "cloneIsCopy Cartesian3Type"
  by (simp add: cloneIsCopy_def Cartesian3Type_def Cartesian3_clone_same)

lemma map_clone_copy: "cloneIsCopy ot \<Longrightarrow> map (clone ot) xs = xs"
  by (induction xs) (simp_all add: cloneIsCopy_def)

lemma keepFrom_append:
  "keepFrom ot v (ys @ zs) =
     keepFrom ot v ys @ keepFrom ot (last (v # keepFrom ot v ys)) zs"
  by (induction ys arbitrary: v) simp_all

lemma keepFrom_clean_same: "\<not> adjacentDuplicate ot (x # xs) \<Longrightarrow> keepFrom ot x xs = xs"
  by (induction xs arbitrary: x) simp_all

lemma keepFrom_all_equal:
  "\<forall>x\<in>set rs. equalsEpsilon ot r x removeDuplicatesEpsilon \<Longrightarrow> keepFrom ot r rs = []"
  by (induction rs) simp_all

lemma body_noWrap_keepFrom_aux:
  assumes "cloneIsCopy ot" and vs: "vs = x # xs"
  shows "elems (removeDuplicatesBody vs ot False) = x # keepFrom ot x xs"
proof (cases "adjacentDuplicate ot vs")
  case True
  let ?i = "firstLoop vs ot 1"
  note f = firstLoop_dup[OF True]
  from f vs obtain ys where t: "take ?i vs = x # ys"
    by (cases ?i) auto
  have l: "last (x # ys) = vs ! (?i - 1)"
    using last_take_nth[of ?i vs] f t by simp
  from firstLoop_prefix_clean[of ot vs] t have yclean: "\<not> adjacentDuplicate ot (x # ys)" by simp
  from f(2) have d: "drop ?i vs = vs ! ?i # drop (Suc ?i) vs"
    by (rule Cons_nth_drop_Suc[symmetric])
  have "take ?i vs @ drop ?i vs = vs" by (rule append_take_drop_id)
  then have "(x # ys) @ drop ?i vs = x # xs" by (simp only: t vs[symmetric])
  then have xs: "xs = ys @ drop ?i vs" by simp
  have "keepFrom ot x (ys @ drop ?i vs) =
          keepFrom ot x ys @ keepFrom ot (last (x # keepFrom ot x ys)) (drop ?i vs)"
    by (rule keepFrom_append)
  then have "keepFrom ot x xs = ys @ keepFrom ot (vs ! (?i - 1)) (drop ?i vs)"
    by (simp only: keepFrom_clean_same[OF yclean] l xs[symmetric])
  also have "keepFrom ot (vs ! (?i - 1)) (drop ?i vs) =
        keepFrom ot (vs ! (?i - 1)) (drop (Suc ?i) vs)"
    using f(3) by (subst d) simp
  finally have "x # keepFrom ot x xs = cleanedvalues vs ot"
    unfolding cleanedvalues_keepFrom[OF True] map_clone_copy[OF assms(1)] t by simp
  then show ?thesis by (simp add: body_dup[OF True])
next
  case False
  with vs have k: "keepFrom ot x xs = xs" by (simp add: keepFrom_clean_same)
  show ?thesis
  proof (cases "length vs < 2")
    case True
    from body_short[OF this, of ot False] show ?thesis by (simp add: k vs)
  next
    case long: False
    then have "2 \<le> length vs" by simp
    from body_clean[OF this False, of False] have "removeDuplicatesBody vs ot False = Original vs"
      by simp
    then show ?thesis by (simp add: k vs)
  qed
qed

lemma body_noWrap_keepFrom:
  "cloneIsCopy ot \<Longrightarrow> elems (removeDuplicatesBody (x # xs) ot False) = x # keepFrom ot x xs"
  by (rule body_noWrap_keepFrom_aux) simp_all

lemma secondLoop_from_start:
  "cloneIsCopy ot \<Longrightarrow> secondLoop post ot 0 r [] = keepFrom ot r post"
  using secondLoop_keepFrom[of 0 post ot r "[]"] by (simp add: map_clone_copy)

lemma body_on_clean:
  assumes "\<not> adjacentDuplicate ot out"
  shows "removeDuplicatesBody out ot b =
     (if b \<and> 2 \<le> length out \<and> equalsEpsilon ot (hd out) (last out) removeDuplicatesEpsilon
      then Allocated (tl out) else Original out)"
proof (cases "length out < 2")
  case True
  with body_short[OF True, of ot b] show ?thesis by simp
next
  case False
  then have len: "2 \<le> length out" and ne: "out \<noteq> []" by auto
  from ne have "hd out = out ! 0" "last out = out ! (length out - 1)"
    by (simp_all add: hd_conv_nth last_conv_nth)
  with body_clean[OF len assms, of b] len show ?thesis
    by (simp add: drop_Suc)
qed

lemma defaultValue_wrapAround:
  "defaultValue wrapAround False = (if wrapAround = Some True then True else False)"
  by (cases wrapAround) (simp_all add: defaultValue_def)

section \<open>The function with its effects\<close>

lemma callEqualsEpsilon_supplied:
  "callEqualsEpsilon (supplied ot) l r tr =
     (tr @ [Compared l r removeDuplicatesEpsilon], Inr (equalsEpsilon ot l r removeDuplicatesEpsilon))"
  by (simp add: callEqualsEpsilon_def supplied_def)

lemma callClone_supplied:
  "callClone (supplied ot) v tr = (tr @ [Cloned v], Inr (clone ot v))"
  by (simp add: callClone_def supplied_def)

lemma firstLoopTraced_supplied:
  "snd (firstLoopTraced vs (supplied ot) i tr) = Inr (firstLoop vs ot i)"
proof (induction vs ot i arbitrary: tr rule: firstLoop.induct)
  case (1 vs ot i)
  show ?case
  proof (cases "i < length vs")
    case True
    show ?thesis
    proof (cases "equalsEpsilon ot (vs ! (i - 1)) (vs ! i) removeDuplicatesEpsilon")
      case eq: True
      with True show ?thesis
        by (subst firstLoopTraced.simps, subst firstLoop.simps)
           (simp add: callEqualsEpsilon_supplied)
    next
      case ne: False
      from "1.IH"[OF True ne] True ne show ?thesis
        by (subst firstLoopTraced.simps, subst firstLoop.simps)
           (simp add: callEqualsEpsilon_supplied)
    qed
  next
    case False
    then show ?thesis
      by (subst firstLoopTraced.simps, subst firstLoop.simps) simp
  qed
qed

lemma secondLoopTraced_supplied:
  "snd (secondLoopTraced vs (supplied ot) i v0 cl tr) = Inr (secondLoop vs ot i v0 cl)"
proof (induction vs ot i v0 cl arbitrary: tr rule: secondLoop.induct)
  case (1 vs ot i v0 cl)
  show ?case
  proof (cases "i < length vs")
    case True
    show ?thesis
    proof (cases "equalsEpsilon ot v0 (vs ! i) removeDuplicatesEpsilon")
      case eq: True
      from "1.IH"(2)[OF True refl] eq True show ?thesis
        by (subst secondLoopTraced.simps, subst secondLoop.simps)
           (simp add: callEqualsEpsilon_supplied Let_def)
    next
      case ne: False
      from "1.IH"(1)[OF True refl] ne True show ?thesis
        by (subst secondLoopTraced.simps, subst secondLoop.simps)
           (simp add: callEqualsEpsilon_supplied callClone_supplied Let_def)
    qed
  next
    case False
    then show ?thesis
      by (subst secondLoopTraced.simps, subst secondLoop.simps) simp
  qed
qed

lemma body_supplied:
  "snd (removeDuplicatesBodyTraced vs (supplied ot :: ('a, 'e) jsObjectType) w) =
     Inr (removeDuplicatesBody vs ot w)"
proof -
  let ?i = "firstLoop vs ot (Suc 0)"
  let ?ot = "supplied ot :: ('a, 'e) jsObjectType"
  obtain tr where f: "firstLoopTraced vs ?ot (Suc 0) [] = (tr, Inr ?i)"
    using firstLoopTraced_supplied[of vs ot "Suc 0" "[]"] by (metis prod.collapse)
  obtain tr2 where s: "secondLoopTraced vs ?ot ?i (vs ! (?i - Suc 0)) (take ?i vs) (tr @ [NewArray]) =
      (tr2, Inr (secondLoop vs ot ?i (vs ! (?i - Suc 0)) (take ?i vs)))"
    using secondLoopTraced_supplied[of vs ot ?i "vs ! (?i - Suc 0)" "take ?i vs" "tr @ [NewArray]"]
    by (metis prod.collapse)
  show ?thesis
    unfolding removeDuplicatesBodyTraced_def removeDuplicatesBody_def
    by (simp add: f s callEqualsEpsilon_supplied Let_def)
qed

lemma traced_supplied:
  "snd (arrayRemoveDuplicatesTraced (Some vs) (Some (supplied ot)) w) =
     Inr (removeDuplicatesBody vs ot (defaultValue w False))"
  by (simp add: arrayRemoveDuplicatesTraced_def defined_def body_supplied)













section \<open>Properties of the function\<close>

text \<open>
  C1. For a value type whose \<open>clone\<close> compares as its original does: a newly allocated
  output has no element that compares equal to its predecessor. With \<open>wrapAround\<close> set
  and at least two elements in a new output, its first and last elements do not compare
  equal, provided the wrap-around step removed nothing (the call without \<open>wrapAround\<close>
  returns the same) or the comparison is symmetric and transitive. An input of fewer than
  two elements, or one with no adjacent duplicate whose first and last elements do not
  compare equal when \<open>wrapAround\<close> is set, is returned as it is.
\<close>

theorem output_invariant:
  assumes "cloneRespectsEquals objectType"
  shows "\<exists>res. arrayRemoveDuplicates (Some values) (Some objectType) wrapAround = Inr res \<and>
     (isAllocated res \<longrightarrow> \<not> adjacentDuplicate objectType (elems res)) \<and>
     (isAllocated res \<and> wrapAround = Some True \<and> 2 \<le> length (elems res) \<and>
        (arrayRemoveDuplicates (Some values) (Some objectType) (Some False) = Inr res \<or>
         equalsEpsilonSymmetric objectType \<and> equalsEpsilonTransitive objectType) \<longrightarrow>
        \<not> equalsEpsilon objectType (hd (elems res)) (last (elems res)) removeDuplicatesEpsilon) \<and>
     (length values < 2 \<or>
        \<not> adjacentDuplicate objectType values \<and>
        (wrapAround = Some True \<longrightarrow>
           \<not> equalsEpsilon objectType (hd values) (last values) removeDuplicatesEpsilon) \<longrightarrow>
        res = Original values)"
proof -
  let ?w = "defaultValue wrapAround False"
  let ?res = "removeDuplicatesBody values objectType ?w"
  have ret: "arrayRemoveDuplicates (Some values) (Some objectType) wrapAround = Inr ?res"
    by (rule arrayRemoveDuplicates_Some)
  have adj: "\<not> adjacentDuplicate objectType (elems ?res)"
    by (rule output_clean[OF assms])
  have wrap: "\<not> equalsEpsilon objectType (hd (elems ?res)) (last (elems ?res)) removeDuplicatesEpsilon"
    if w: "wrapAround = Some True" and len: "2 \<le> length (elems ?res)"
      and c: "arrayRemoveDuplicates (Some values) (Some objectType) (Some False) = Inr ?res \<or>
         equalsEpsilonSymmetric objectType \<and> equalsEpsilonTransitive objectType"
  proof -
    from w have t: "?res = removeDuplicatesBody values objectType True"
      by (simp add: defaultValue_def)
    from len have ne: "elems ?res \<noteq> []" by auto
    have "\<not> equalsEpsilon objectType (elems ?res ! 0) (elems ?res ! (length (elems ?res) - 1))
            removeDuplicatesEpsilon"
    proof (cases "removeDuplicatesBody values objectType False = removeDuplicatesBody values objectType True")
      case True
      from wrap_kept_first_last[OF True] len show ?thesis unfolding t by simp
    next
      case False
      with c t have "equalsEpsilonSymmetric objectType \<and> equalsEpsilonTransitive objectType"
        by (simp add: arrayRemoveDuplicates_Some defaultValue_def)
      with wrap_removed_first_last[OF assms, of "values"] len show ?thesis unfolding t by simp
    qed
    with ne show ?thesis by (simp add: hd_conv_nth last_conv_nth)
  qed
  have same: "?res = Original values"
    if c: "length values < 2 \<or>
        \<not> adjacentDuplicate objectType values \<and>
        (wrapAround = Some True \<longrightarrow>
           \<not> equalsEpsilon objectType (hd values) (last values) removeDuplicatesEpsilon)"
  proof (cases "length values < 2")
    case True
    then show ?thesis by (rule body_short)
  next
    case False
    then have ne: "values \<noteq> []" by auto
    from False c have clean: "\<not> adjacentDuplicate objectType values"
      and fl: "wrapAround = Some True \<longrightarrow>
           \<not> equalsEpsilon objectType (values ! 0) (values ! (length values - 1))
               removeDuplicatesEpsilon"
      using ne by (simp_all add: hd_conv_nth last_conv_nth)
    from fl have "\<not> (?w \<and> equalsEpsilon objectType (values ! 0) (values ! (length values - 1))
               removeDuplicatesEpsilon)"
      by (cases wrapAround) (auto simp add: defaultValue_def)
    with False clean show ?thesis by (simp add: body_clean)
  qed
  from ret adj wrap same show ?thesis
    by blast
qed

theorem output_invariant_witness:
  "cloneRespectsEquals Cartesian3Type \<and>
   arrayRemoveDuplicates (Some [Cartesian3 1 1 1, Cartesian3 1 1 1, Cartesian3 2 2 2, Cartesian3 3 3 3])
     (Some Cartesian3Type) (Some True) =
     Inr (Allocated [Cartesian3 1 1 1, Cartesian3 2 2 2, Cartesian3 3 3 3]) \<and>
   arrayRemoveDuplicates (Some [Cartesian3 1 1 1, Cartesian3 1 1 1, Cartesian3 2 2 2, Cartesian3 3 3 3])
     (Some Cartesian3Type) (Some False) =
     Inr (Allocated [Cartesian3 1 1 1, Cartesian3 2 2 2, Cartesian3 3 3 3]) \<and>
   \<not> adjacentDuplicate Cartesian3Type [Cartesian3 1 1 1, Cartesian3 2 2 2, Cartesian3 3 3 3] \<and>
   \<not> equalsEpsilon Cartesian3Type (Cartesian3 1 1 1) (Cartesian3 3 3 3) removeDuplicatesEpsilon \<and>
   cloneRespectsEquals exactType \<and> equalsEpsilonSymmetric exactType \<and>
   equalsEpsilonTransitive exactType \<and>
   arrayRemoveDuplicates (Some [1, 1, 2, 3, 1]) (Some exactType) (Some True) =
     Inr (Allocated [2, 3, 1]) \<and>
   \<not> equalsEpsilon exactType 2 1 removeDuplicatesEpsilon \<and>
   \<not> adjacentDuplicate Cartesian3Type [Cartesian3 1 0 0, Cartesian3 2 0 0, Cartesian3 3 0 0] \<and>
   \<not> equalsEpsilon Cartesian3Type (Cartesian3 1 0 0) (Cartesian3 3 0 0) removeDuplicatesEpsilon \<and>
   arrayRemoveDuplicates (Some [Cartesian3 1 0 0, Cartesian3 2 0 0, Cartesian3 3 0 0])
     (Some Cartesian3Type) (Some True) =
     Inr (Original [Cartesian3 1 0 0, Cartesian3 2 0 0, Cartesian3 3 0 0])"
  using output_invariant [OF Cartesian3Type_cloneRespectsEquals,
          of "[Cartesian3 1 1 1, Cartesian3 1 1 1, Cartesian3 2 2 2, Cartesian3 3 3 3]" "Some True"]
        output_invariant [OF exactType_assumptions(1), of "[1, 1, 2, 3, 1]" "Some True"]
        output_invariant [OF Cartesian3Type_cloneRespectsEquals,
          of "[Cartesian3 1 0 0, Cartesian3 2 0 0, Cartesian3 3 0 0]" "Some True"]
        Cartesian3Type_cloneRespectsEquals exactType_assumptions
  by (simp add: evaluation)

text \<open>
  C1 as stated fails for the first and last elements. With the tolerance comparison of
  \<open>Cartesian3\<close>, the wrap-around step removes the first element \<open>(0,0,0)\<close>, and the new
  first element \<open>(1/8589934592,0,0)\<close> and the last \<open>(1/17179869184,0,0)\<close> of the new
  output compare equal: the function compares once and trims no further. The coordinates
  are powers of two, \<open>1/2^33\<close> and \<open>1/2^34\<close>, either side of the tolerance. A new
  output of one element, as for \<open>(5,0,0), (5,0,0)\<close>, has its only element first and last.
\<close>

theorem first_last_after_removal_counterexample:
  "arrayRemoveDuplicates
     (Some [Cartesian3 0 0 0, Cartesian3 0 0 0, Cartesian3 (1 / 8589934592) 0 0,
            Cartesian3 5 0 0, Cartesian3 (1 / 17179869184) 0 0])
     (Some Cartesian3Type) (Some True) =
     Inr (Allocated [Cartesian3 (1 / 8589934592) 0 0, Cartesian3 5 0 0,
                     Cartesian3 (1 / 17179869184) 0 0]) \<and>
   equalsEpsilon Cartesian3Type
     (hd [Cartesian3 (1 / 8589934592) 0 0, Cartesian3 5 0 0, Cartesian3 (1 / 17179869184) 0 0])
     (last [Cartesian3 (1 / 8589934592) 0 0, Cartesian3 5 0 0, Cartesian3 (1 / 17179869184) 0 0])
     removeDuplicatesEpsilon \<and>
   arrayRemoveDuplicates (Some [Cartesian3 5 0 0, Cartesian3 5 0 0]) (Some Cartesian3Type)
     (Some True) = Inr (Allocated [Cartesian3 5 0 0]) \<and>
   equalsEpsilon Cartesian3Type (hd [Cartesian3 5 0 0]) (last [Cartesian3 5 0 0])
     removeDuplicatesEpsilon"
  by (simp add: evaluation)

text \<open>
  C2. The documented example with \<open>wrapAround\<close> set: \<^verbatim>\<open>cleanedvalues.shift()\<close> removes the
  leading \<open>(1,1,1)\<close>, so the function returns \<open>(2,2,2), (3,3,3), (1,1,1)\<close>, not the
  \<open>(1,1,1), (2,2,2), (3,3,3)\<close> of its documentation. Without \<open>wrapAround\<close> the result is
  the documented one.
\<close>

theorem documented_wrapAround_example:
  "arrayRemoveDuplicates
     (Some [Cartesian3 1 1 1, Cartesian3 1 1 1, Cartesian3 2 2 2, Cartesian3 3 3 3, Cartesian3 1 1 1])
     (Some Cartesian3Type) (Some True) =
     Inr (Allocated [Cartesian3 2 2 2, Cartesian3 3 3 3, Cartesian3 1 1 1]) \<and>
   arrayRemoveDuplicates
     (Some [Cartesian3 1 1 1, Cartesian3 1 1 1, Cartesian3 2 2 2, Cartesian3 3 3 3, Cartesian3 1 1 1])
     (Some Cartesian3Type) (Some False) =
     Inr (Allocated [Cartesian3 1 1 1, Cartesian3 2 2 2, Cartesian3 3 3 3, Cartesian3 1 1 1])"
  by (simp add: evaluation)

text \<open>
  C3. For a value type whose \<open>clone\<close> compares as its original does, the function applied
  to its own output, with the same \<open>wrapAround\<close>, returns that output as it is, except in
  one case: \<open>wrapAround\<close> is set and the output has at least two elements whose first and
  last compare equal; then the second call removes one more element. The exception does
  not arise when \<open>wrapAround\<close> is false or absent, when the wrap-around step of the first
  call removed nothing (the call without \<open>wrapAround\<close> returns the same), or when the
  comparison is symmetric and transitive.
\<close>

theorem idempotence:
  assumes "cloneRespectsEquals objectType"
  shows "\<exists>once twice.
     arrayRemoveDuplicates (Some values) (Some objectType) wrapAround = Inr once \<and>
     arrayRemoveDuplicates (Some (elems once)) (Some objectType) wrapAround = Inr twice \<and>
     (elems twice = elems once \<longleftrightarrow>
        \<not> (wrapAround = Some True \<and> 2 \<le> length (elems once) \<and>
           equalsEpsilon objectType (hd (elems once)) (last (elems once))
             removeDuplicatesEpsilon)) \<and>
     (wrapAround \<noteq> Some True \<or>
      arrayRemoveDuplicates (Some values) (Some objectType) (Some False) = Inr once \<or>
      equalsEpsilonSymmetric objectType \<and> equalsEpsilonTransitive objectType \<longrightarrow>
        twice = Original (elems once))"
proof -
  let ?w = "defaultValue wrapAround False"
  let ?once = "removeDuplicatesBody values objectType ?w"
  let ?out = "elems ?once"
  let ?twice = "removeDuplicatesBody ?out objectType ?w"
  let ?again = "wrapAround = Some True \<and> 2 \<le> length ?out \<and>
     equalsEpsilon objectType (hd ?out) (last ?out) removeDuplicatesEpsilon"
  have adj: "\<not> adjacentDuplicate objectType ?out"
    by (rule output_clean[OF assms])
  have twice: "?twice = (if ?again then Allocated (tl ?out) else Original ?out)"
  proof (cases "wrapAround = Some True")
    case True
    then have "?w = True" by (simp add: defaultValue_def)
    with body_on_clean[OF adj, of True] True show ?thesis by simp
  next
    case False
    then have "?w = False" by (simp add: defaultValue_wrapAround)
    with body_on_clean[OF adj, of False] False show ?thesis by simp
  qed
  have "length (tl ?out) \<noteq> length ?out" if "2 \<le> length ?out"
    using that by simp
  then have "tl ?out \<noteq> ?out" if "2 \<le> length ?out"
    using that by metis
  with twice have exact: "elems ?twice = ?out \<longleftrightarrow> \<not> ?again"
    by auto
  have enough: "?twice = Original ?out"
    if c: "wrapAround \<noteq> Some True \<or>
      arrayRemoveDuplicates (Some values) (Some objectType) (Some False) = Inr ?once \<or>
      equalsEpsilonSymmetric objectType \<and> equalsEpsilonTransitive objectType"
  proof -
    have "\<not> ?again"
    proof
      assume a: ?again
      then have wa: "wrapAround = Some True" and len: "2 \<le> length ?out"
        and hl: "equalsEpsilon objectType (hd ?out) (last ?out) removeDuplicatesEpsilon"
        by blast+
      from wa have t: "?once = removeDuplicatesBody values objectType True"
        by (simp add: defaultValue_def)
      from len have ne: "?out \<noteq> []" by auto
      then have idx: "hd ?out = ?out ! 0" "last ?out = ?out ! (length ?out - 1)"
        by (simp_all add: hd_conv_nth last_conv_nth)
      from hl have eq: "equalsEpsilon objectType (?out ! 0) (?out ! (length ?out - 1))
          removeDuplicatesEpsilon"
        by (simp only: idx)
      from c wa have "arrayRemoveDuplicates (Some values) (Some objectType) (Some False) = Inr ?once \<or>
          equalsEpsilonSymmetric objectType \<and> equalsEpsilonTransitive objectType"
        by blast
      then have "removeDuplicatesBody values objectType False =
            removeDuplicatesBody values objectType True \<or>
          equalsEpsilonSymmetric objectType \<and> equalsEpsilonTransitive objectType"
        unfolding t by (simp add: arrayRemoveDuplicates_Some defaultValue_def)
      then show False
      proof
        assume "removeDuplicatesBody values objectType False =
            removeDuplicatesBody values objectType True"
        from wrap_kept_first_last[OF this] len eq show False unfolding t by simp
      next
        assume "equalsEpsilonSymmetric objectType \<and> equalsEpsilonTransitive objectType"
        with wrap_removed_first_last[OF assms, of "values"] len eq show False
          unfolding t by simp
      qed
    qed
    with twice show ?thesis by simp
  qed
  have r1: "arrayRemoveDuplicates (Some values) (Some objectType) wrapAround = Inr ?once"
    by (rule arrayRemoveDuplicates_Some)
  have r2: "arrayRemoveDuplicates (Some ?out) (Some objectType) wrapAround = Inr ?twice"
    by (rule arrayRemoveDuplicates_Some)
  from r1 r2 exact enough show ?thesis by blast
qed

theorem idempotence_witness:
  "cloneRespectsEquals Cartesian3Type \<and>
   arrayRemoveDuplicates
     (Some [Cartesian3 1 1 1, Cartesian3 1 1 1, Cartesian3 2 2 2, Cartesian3 3 3 3])
     (Some Cartesian3Type) (Some True) =
     Inr (Allocated [Cartesian3 1 1 1, Cartesian3 2 2 2, Cartesian3 3 3 3]) \<and>
   arrayRemoveDuplicates
     (Some [Cartesian3 1 1 1, Cartesian3 1 1 1, Cartesian3 2 2 2, Cartesian3 3 3 3])
     (Some Cartesian3Type) (Some False) =
     Inr (Allocated [Cartesian3 1 1 1, Cartesian3 2 2 2, Cartesian3 3 3 3]) \<and>
   arrayRemoveDuplicates (Some [Cartesian3 1 1 1, Cartesian3 2 2 2, Cartesian3 3 3 3])
     (Some Cartesian3Type) (Some True) =
     Inr (Original [Cartesian3 1 1 1, Cartesian3 2 2 2, Cartesian3 3 3 3]) \<and>
   arrayRemoveDuplicates
     (Some [Cartesian3 1 1 1, Cartesian3 1 1 1, Cartesian3 2 2 2, Cartesian3 3 3 3, Cartesian3 1 1 1])
     (Some Cartesian3Type) (Some True) =
     Inr (Allocated [Cartesian3 2 2 2, Cartesian3 3 3 3, Cartesian3 1 1 1]) \<and>
   \<not> equalsEpsilon Cartesian3Type (Cartesian3 2 2 2) (Cartesian3 1 1 1) removeDuplicatesEpsilon \<and>
   arrayRemoveDuplicates (Some [Cartesian3 2 2 2, Cartesian3 3 3 3, Cartesian3 1 1 1])
     (Some Cartesian3Type) (Some True) =
     Inr (Original [Cartesian3 2 2 2, Cartesian3 3 3 3, Cartesian3 1 1 1]) \<and>
   arrayRemoveDuplicates
     (Some [Cartesian3 1 1 1, Cartesian3 1 1 1, Cartesian3 2 2 2, Cartesian3 3 3 3, Cartesian3 1 1 1])
     (Some Cartesian3Type) (Some False) =
     Inr (Allocated [Cartesian3 1 1 1, Cartesian3 2 2 2, Cartesian3 3 3 3, Cartesian3 1 1 1]) \<and>
   arrayRemoveDuplicates
     (Some [Cartesian3 1 1 1, Cartesian3 2 2 2, Cartesian3 3 3 3, Cartesian3 1 1 1])
     (Some Cartesian3Type) (Some False) =
     Inr (Original [Cartesian3 1 1 1, Cartesian3 2 2 2, Cartesian3 3 3 3, Cartesian3 1 1 1]) \<and>
   cloneRespectsEquals exactType \<and> equalsEpsilonSymmetric exactType \<and>
   equalsEpsilonTransitive exactType \<and>
   arrayRemoveDuplicates (Some [1, 1, 2, 3, 1]) (Some exactType) (Some True) =
     Inr (Allocated [2, 3, 1]) \<and>
   arrayRemoveDuplicates (Some [2, 3, 1]) (Some exactType) (Some True) = Inr (Original [2, 3, 1])"
  using idempotence [OF Cartesian3Type_cloneRespectsEquals,
          of "[Cartesian3 1 1 1, Cartesian3 1 1 1, Cartesian3 2 2 2, Cartesian3 3 3 3]" "Some True"]
        idempotence [OF Cartesian3Type_cloneRespectsEquals,
          of "[Cartesian3 1 1 1, Cartesian3 1 1 1, Cartesian3 2 2 2, Cartesian3 3 3 3, Cartesian3 1 1 1]"
             "Some True"]
        idempotence [OF Cartesian3Type_cloneRespectsEquals,
          of "[Cartesian3 1 1 1, Cartesian3 1 1 1, Cartesian3 2 2 2, Cartesian3 3 3 3, Cartesian3 1 1 1]"
             "Some False"]
        idempotence [OF exactType_assumptions(1), of "[1, 1, 2, 3, 1]" "Some True"]
        Cartesian3Type_cloneRespectsEquals exactType_assumptions
  by (simp add: evaluation)

text \<open>
  C3 as stated fails with \<open>wrapAround\<close> set and a tolerance comparison: the first call
  removes \<open>(0,0,0)\<close>, and the second call finds the new first and last elements equal
  within the tolerance and removes one more.
\<close>

theorem idempotence_counterexample:
  "arrayRemoveDuplicates
     (Some [Cartesian3 0 0 0, Cartesian3 (1 / 8589934592) 0 0, Cartesian3 5 0 0,
            Cartesian3 (1 / 17179869184) 0 0])
     (Some Cartesian3Type) (Some True) =
     Inr (Allocated [Cartesian3 (1 / 8589934592) 0 0, Cartesian3 5 0 0,
                     Cartesian3 (1 / 17179869184) 0 0]) \<and>
   arrayRemoveDuplicates
     (Some [Cartesian3 (1 / 8589934592) 0 0, Cartesian3 5 0 0, Cartesian3 (1 / 17179869184) 0 0])
     (Some Cartesian3Type) (Some True) =
     Inr (Allocated [Cartesian3 5 0 0, Cartesian3 (1 / 17179869184) 0 0])"
  by (simp add: evaluation)

text \<open>
  C4. With \<open>wrapAround\<close> set, the function returns what it returns without it, except that
  the first element is removed when that sequence has more than one element and its first
  and last elements compare equal. Nothing else is removed, whatever the new first and
  last elements are; at most one element goes.
\<close>

theorem wrapAround_removes_at_most_first:
  "\<exists>d t. arrayRemoveDuplicates (Some values) (Some objectType) (Some False) = Inr d \<and>
         arrayRemoveDuplicates (Some values) (Some objectType) (Some True) = Inr t \<and>
         elems t =
           (if 1 < length (elems d) \<and>
               equalsEpsilon objectType (elems d ! 0) (elems d ! (length (elems d) - 1))
                 removeDuplicatesEpsilon
            then tl (elems d) else elems d) \<and>
         length (elems d) - length (elems t) \<le> 1"
proof -
  let ?d = "removeDuplicatesBody values objectType False"
  let ?t = "removeDuplicatesBody values objectType True"
  have step: "elems ?t =
           (if 1 < length (elems ?d) \<and>
               equalsEpsilon objectType (elems ?d ! 0) (elems ?d ! (length (elems ?d) - 1))
                 removeDuplicatesEpsilon
            then tl (elems ?d) else elems ?d)"
    using body_wrap_step[of "values" objectType] by (simp add: Let_def)
  then have "length (elems ?d) - length (elems ?t) \<le> 1"
    by (simp split: if_splits)
  with step show ?thesis
    by (simp add: arrayRemoveDuplicates_Some defaultValue_def)
qed

text \<open>
  C5. With \<open>wrapAround\<close> false or absent and a \<open>clone\<close> that returns the same value: let
  the input be \<open>pre @ r # rs @ post\<close>, where \<open>r # rs\<close> is a run of at least two elements,
  each element of \<open>rs\<close> comparing equal to \<open>r\<close>, and \<open>r\<close> is not itself dropped (\<open>pre\<close> is
  empty, or the last element of the output for \<open>pre\<close> does not compare equal to \<open>r\<close>).
  Then the output is the output for \<open>pre\<close>, then the single element \<open>r\<close> for the run, then
  what the second loop keeps of \<open>post\<close> starting from \<open>r\<close>.
\<close>

theorem run_collapses_to_one:
  assumes "cloneIsCopy objectType"
    and "wrapAround \<noteq> Some True"
    and "rs \<noteq> []"
    and "\<forall>x\<in>set rs. equalsEpsilon objectType r x removeDuplicatesEpsilon"
    and "arrayRemoveDuplicates (Some pre) (Some objectType) wrapAround = Inr before"
    and "pre = [] \<or> \<not> equalsEpsilon objectType (last (elems before)) r removeDuplicatesEpsilon"
  shows "\<exists>res. arrayRemoveDuplicates (Some (pre @ r # rs @ post)) (Some objectType) wrapAround =
                 Inr res \<and>
               elems res = elems before @ [r] @ secondLoop post objectType 0 r []"
proof -
  from assms(2) have w: "defaultValue wrapAround False = False"
    by (cases wrapAround) (simp_all add: defaultValue_def)
  from assms(5) have before: "before = removeDuplicatesBody pre objectType False"
    by (simp add: arrayRemoveDuplicates_Some w)
  have run: "keepFrom objectType r (rs @ post) = keepFrom objectType r post"
    by (simp add: keepFrom_append keepFrom_all_equal[OF assms(4)])
  have "elems (removeDuplicatesBody (pre @ r # rs @ post) objectType False) =
          elems before @ [r] @ keepFrom objectType r post"
  proof (cases pre)
    case Nil
    then show ?thesis
      by (simp add: body_noWrap_keepFrom[OF assms(1)] run before body_short)
  next
    case (Cons p ps)
    then have b: "elems before = p # keepFrom objectType p ps"
      by (simp add: before body_noWrap_keepFrom[OF assms(1)])
    with assms(6) Cons
    have "\<not> equalsEpsilon objectType (last (p # keepFrom objectType p ps)) r removeDuplicatesEpsilon"
      by simp
    then have "keepFrom objectType p (ps @ r # rs @ post) =
        keepFrom objectType p ps @ r # keepFrom objectType r post"
      by (subst keepFrom_append) (simp add: run)
    then show ?thesis
      by (simp add: Cons b body_noWrap_keepFrom[OF assms(1)])
  qed
  then show ?thesis
    by (simp add: arrayRemoveDuplicates_Some w secondLoop_from_start[OF assms(1)])
qed

theorem run_collapses_to_one_witness:
  "cloneIsCopy Cartesian3Type \<and> Some False \<noteq> Some True \<and> [Cartesian3 2 2 2, Cartesian3 2 2 2] \<noteq> [] \<and>
   equalsEpsilon Cartesian3Type (Cartesian3 2 2 2) (Cartesian3 2 2 2) removeDuplicatesEpsilon \<and>
   arrayRemoveDuplicates (Some [Cartesian3 1 1 1]) (Some Cartesian3Type) (Some False) =
     Inr (Original [Cartesian3 1 1 1]) \<and>
   \<not> equalsEpsilon Cartesian3Type (last (elems (Original [Cartesian3 1 1 1]))) (Cartesian3 2 2 2)
       removeDuplicatesEpsilon \<and>
   arrayRemoveDuplicates
     (Some ([Cartesian3 1 1 1] @ Cartesian3 2 2 2 # [Cartesian3 2 2 2, Cartesian3 2 2 2] @
            [Cartesian3 3 3 3, Cartesian3 3 3 3]))
     (Some Cartesian3Type) (Some False) =
     Inr (Allocated [Cartesian3 1 1 1, Cartesian3 2 2 2, Cartesian3 3 3 3]) \<and>
   secondLoop [Cartesian3 3 3 3, Cartesian3 3 3 3] Cartesian3Type 0 (Cartesian3 2 2 2) [] =
     [Cartesian3 3 3 3]"
  using run_collapses_to_one [OF Cartesian3Type_cloneIsCopy, of "Some False"
          "[Cartesian3 2 2 2, Cartesian3 2 2 2]" "Cartesian3 2 2 2" "[Cartesian3 1 1 1]"
          "Original [Cartesian3 1 1 1]" "[Cartesian3 3 3 3, Cartesian3 3 3 3]"]
        Cartesian3Type_cloneIsCopy
  by (simp add: evaluation)

text \<open>
  C5 as stated fails, since an element is compared with the last element kept and not
  with its neighbour. In \<open>(0,0,0), (1/17179869184,0,0), (1/8589934592,0,0)\<close> each element
  compares equal to the one before it, and two elements are kept. In
  \<open>(0,0,0), (-1/17179869184,0,0), (1/17179869184,0,0), (1/17179869184,0,0)\<close> the last two
  elements are a run that does not compare equal to the element before it, and the output
  is the single element \<open>(0,0,0)\<close> that stands for the first two: nothing is kept for the
  run.
\<close>

theorem run_collapses_to_one_counterexample:
  "equalsEpsilon Cartesian3Type (Cartesian3 0 0 0) (Cartesian3 (1 / 17179869184) 0 0)
     removeDuplicatesEpsilon \<and>
   equalsEpsilon Cartesian3Type (Cartesian3 (1 / 17179869184) 0 0) (Cartesian3 (1 / 8589934592) 0 0)
     removeDuplicatesEpsilon \<and>
   arrayRemoveDuplicates
     (Some [Cartesian3 0 0 0, Cartesian3 (1 / 17179869184) 0 0, Cartesian3 (1 / 8589934592) 0 0])
     (Some Cartesian3Type) (Some False) =
     Inr (Allocated [Cartesian3 0 0 0, Cartesian3 (1 / 8589934592) 0 0]) \<and>
   \<not> equalsEpsilon Cartesian3Type (Cartesian3 (- 1 / 17179869184) 0 0)
       (Cartesian3 (1 / 17179869184) 0 0) removeDuplicatesEpsilon \<and>
   equalsEpsilon Cartesian3Type (Cartesian3 (1 / 17179869184) 0 0)
     (Cartesian3 (1 / 17179869184) 0 0) removeDuplicatesEpsilon \<and>
   arrayRemoveDuplicates
     (Some [Cartesian3 0 0 0, Cartesian3 (- 1 / 17179869184) 0 0,
            Cartesian3 (1 / 17179869184) 0 0, Cartesian3 (1 / 17179869184) 0 0])
     (Some Cartesian3Type) (Some False) =
     Inr (Allocated [Cartesian3 0 0 0])"
  by (simp add: evaluation)

text \<open>
  C6. An array in which no element compares equal to its predecessor is returned as it
  is, with no new array, when \<open>wrapAround\<close> is false or absent; an array of fewer than two
  elements is returned as it is whatever \<open>wrapAround\<close> is.
\<close>

theorem clean_input_returned_unchanged:
  "(\<not> adjacentDuplicate objectType values \<longrightarrow>
      arrayRemoveDuplicates (Some values) (Some objectType) (Some False) = Inr (Original values) \<and>
      arrayRemoveDuplicates (Some values) (Some objectType) None = Inr (Original values)) \<and>
   (length values < 2 \<longrightarrow>
      arrayRemoveDuplicates (Some values) (Some objectType) wrapAround = Inr (Original values))"
proof (intro conjI impI)
  assume clean: "\<not> adjacentDuplicate objectType values"
  have "removeDuplicatesBody values objectType False = Original values"
  proof (cases "length values < 2")
    case True
    then show ?thesis by (rule body_short)
  next
    case False
    with clean show ?thesis by (simp add: body_clean)
  qed
  then show "arrayRemoveDuplicates (Some values) (Some objectType) (Some False) = Inr (Original values)"
    and "arrayRemoveDuplicates (Some values) (Some objectType) None = Inr (Original values)"
    by (simp_all add: arrayRemoveDuplicates_Some defaultValue_def)
next
  assume "length values < 2"
  then show "arrayRemoveDuplicates (Some values) (Some objectType) wrapAround = Inr (Original values)"
    by (simp add: arrayRemoveDuplicates_Some body_short)
qed

theorem clean_input_returned_unchanged_witness:
  "\<not> adjacentDuplicate Cartesian3Type [Cartesian3 1 0 0, Cartesian3 2 0 0, Cartesian3 3 0 0] \<and>
   arrayRemoveDuplicates (Some [Cartesian3 1 0 0, Cartesian3 2 0 0, Cartesian3 3 0 0])
     (Some Cartesian3Type) (Some False) =
     Inr (Original [Cartesian3 1 0 0, Cartesian3 2 0 0, Cartesian3 3 0 0]) \<and>
   length [Cartesian3 1 0 0] < 2 \<and>
   arrayRemoveDuplicates (Some [Cartesian3 1 0 0]) (Some Cartesian3Type) (Some True) =
     Inr (Original [Cartesian3 1 0 0])"
  using clean_input_returned_unchanged
          [of Cartesian3Type "[Cartesian3 1 0 0, Cartesian3 2 0 0, Cartesian3 3 0 0]"]
        clean_input_returned_unchanged [of Cartesian3Type "[Cartesian3 1 0 0]" "Some True"]
  by (simp add: Cartesian3Type_def removeDuplicatesEpsilon_def EPSILON10_def)

text \<open>
  C7. For an array of at least two elements with no adjacent duplicate and \<open>wrapAround\<close>
  set: when the first and last elements compare equal the result is a new array, the input
  without its first element; otherwise the input array itself is returned.
\<close>

theorem wrapAround_on_clean_input:
  assumes "2 \<le> length values" and "\<not> adjacentDuplicate objectType values"
  shows "arrayRemoveDuplicates (Some values) (Some objectType) (Some True) =
           Inr (if equalsEpsilon objectType (hd values) (last values) removeDuplicatesEpsilon
                then Allocated (tl values) else Original values)"
proof -
  from assms(1) have ne: "values \<noteq> []" by auto
  then have "hd values = values ! 0" "last values = values ! (length values - 1)"
    by (simp_all add: hd_conv_nth last_conv_nth)
  with assms show ?thesis
    by (simp add: arrayRemoveDuplicates_Some defaultValue_def body_clean drop_Suc)
qed

theorem wrapAround_on_clean_input_witness:
  "2 \<le> length [Cartesian3 1 0 0, Cartesian3 2 0 0, Cartesian3 1 0 0] \<and>
   \<not> adjacentDuplicate Cartesian3Type [Cartesian3 1 0 0, Cartesian3 2 0 0, Cartesian3 1 0 0] \<and>
   arrayRemoveDuplicates (Some [Cartesian3 1 0 0, Cartesian3 2 0 0, Cartesian3 1 0 0])
     (Some Cartesian3Type) (Some True) = Inr (Allocated [Cartesian3 2 0 0, Cartesian3 1 0 0]) \<and>
   2 \<le> length [Cartesian3 1 0 0, Cartesian3 2 0 0, Cartesian3 3 0 0] \<and>
   \<not> adjacentDuplicate Cartesian3Type [Cartesian3 1 0 0, Cartesian3 2 0 0, Cartesian3 3 0 0] \<and>
   arrayRemoveDuplicates (Some [Cartesian3 1 0 0, Cartesian3 2 0 0, Cartesian3 3 0 0])
     (Some Cartesian3Type) (Some True) =
     Inr (Original [Cartesian3 1 0 0, Cartesian3 2 0 0, Cartesian3 3 0 0])"
  using wrapAround_on_clean_input
          [of "[Cartesian3 1 0 0, Cartesian3 2 0 0, Cartesian3 1 0 0]" Cartesian3Type]
        wrapAround_on_clean_input
          [of "[Cartesian3 1 0 0, Cartesian3 2 0 0, Cartesian3 3 0 0]" Cartesian3Type]
  by (simp add: Cartesian3Type_def removeDuplicatesEpsilon_def EPSILON10_def)




text \<open>
  C9. On an array of exactly two elements the result does not depend on \<open>wrapAround\<close>:
  when the two compare equal it is the new one-element array of the first, and otherwise
  the input array itself.
\<close>

theorem two_elements_wrapAround_irrelevant:
  assumes "length values = 2"
  shows "arrayRemoveDuplicates (Some values) (Some objectType) (Some True) =
           arrayRemoveDuplicates (Some values) (Some objectType) (Some False) \<and>
         arrayRemoveDuplicates (Some values) (Some objectType) (Some False) =
           Inr (if equalsEpsilon objectType (values ! 0) (values ! 1) removeDuplicatesEpsilon
                then Allocated [values ! 0] else Original values)"
proof -
  from assms obtain a b where v: "values = [a, b]"
    by (cases "values"; cases "tl values") auto
  show ?thesis
    unfolding v
    by (simp add: arrayRemoveDuplicates_Some defaultValue_def removeDuplicatesBody_def
        firstLoop.simps secondLoop.simps Let_def)
qed

theorem two_elements_wrapAround_irrelevant_witness:
  "length [Cartesian3 5 0 0, Cartesian3 5 0 0] = 2 \<and>
   arrayRemoveDuplicates (Some [Cartesian3 5 0 0, Cartesian3 5 0 0]) (Some Cartesian3Type) (Some True) =
     arrayRemoveDuplicates (Some [Cartesian3 5 0 0, Cartesian3 5 0 0]) (Some Cartesian3Type) (Some False) \<and>
   arrayRemoveDuplicates (Some [Cartesian3 5 0 0, Cartesian3 5 0 0]) (Some Cartesian3Type) (Some False) =
     Inr (Allocated [Cartesian3 5 0 0])"
  using two_elements_wrapAround_irrelevant [of "[Cartesian3 5 0 0, Cartesian3 5 0 0]" Cartesian3Type]
  by (simp add: Cartesian3Type_def removeDuplicatesEpsilon_def EPSILON10_def)

text \<open>
  C10. With both arguments present the function returns; the output of a non-empty input
  is non-empty, the output is never longer than the input, and it is strictly shorter
  when some element of the input compares equal to its predecessor.
\<close>

theorem output_length_bounds:
  "\<exists>res. arrayRemoveDuplicates (Some values) (Some objectType) wrapAround = Inr res \<and>
         (values \<noteq> [] \<longrightarrow> elems res \<noteq> []) \<and>
         length (elems res) \<le> length values \<and>
         (adjacentDuplicate objectType values \<longrightarrow> length (elems res) < length values)"
proof -
  let ?w = "defaultValue wrapAround False"
  let ?res = "removeDuplicatesBody values objectType ?w"
  have "(values \<noteq> [] \<longrightarrow> elems ?res \<noteq> []) \<and> length (elems ?res) \<le> length values \<and>
        (adjacentDuplicate objectType values \<longrightarrow> length (elems ?res) < length values)"
  proof (cases "adjacentDuplicate objectType values")
    case True
    let ?c = "cleanedvalues values objectType"
    note c = cleanedvalues_length[OF True]
    have "elems ?res = ?c \<or> (1 < length ?c \<and> elems ?res = tl ?c)"
      by (simp add: body_dup[OF True])
    then have "1 \<le> length (elems ?res) \<and> length (elems ?res) \<le> length ?c"
      using c(1) by auto
    with c(2) show ?thesis by auto
  next
    case False
    show ?thesis
    proof (cases "length values < 2")
      case True
      with False show ?thesis by (simp add: body_short)
    next
      case long: False
      with False show ?thesis by (auto simp add: body_clean)
    qed
  qed
  then show ?thesis by (simp add: arrayRemoveDuplicates_Some)
qed

theorem output_length_bounds_witness:
  "[Cartesian3 5 0 0, Cartesian3 5 0 0] \<noteq> [] \<and>
   adjacentDuplicate Cartesian3Type [Cartesian3 5 0 0, Cartesian3 5 0 0] \<and>
   (\<exists>res. arrayRemoveDuplicates (Some [Cartesian3 5 0 0, Cartesian3 5 0 0]) (Some Cartesian3Type)
            (Some True) = Inr res \<and>
          elems res \<noteq> [] \<and> length (elems res) < length [Cartesian3 5 0 0, Cartesian3 5 0 0])"
  using output_length_bounds [of "[Cartesian3 5 0 0, Cartesian3 5 0 0]" Cartesian3Type "Some True"]
  by (auto simp add: Cartesian3Type_def removeDuplicatesEpsilon_def EPSILON10_def)

end
